theory Spec2Isabelle
  imports Main
begin

section \<open>The pattern matcher behind \<open>getVideoId\<close>\<close>

text \<open>
  \<open>getVideoId\<close> in \<open>src/App.tsx\<close> applies one regular expression to the URL text:
  \<^verbatim>\<open>/^.*(youtu.be\/|v\/|u\/\w\/|embed\/|watch\?v=|&v=)([^#&?]*).*/\<close>
  The pattern is embedded as a syntax tree and run by a backtracking matcher written in
  continuation-passing style, the way the language standard defines matching: a quantifier
  is greedy, an alternation tries its branches from left to right, and the first complete
  match found wins.

  Strings are HOL strings, so a character is one code unit in the range 0..255. Of the four
  line terminators that \<open>.\<close> refuses, line feed and carriage return are in that range; the
  other two (U+2028 and U+2029) lie outside the modelled alphabet.
\<close>

datatype atom =
    Chr char            \<comment> \<open>a literal character\<close>
  | Dot                 \<comment> \<open>\<open>.\<close>\<close>
  | Word                \<comment> \<open>\<open>\w\<close>\<close>
  | NoneOf "char list"  \<comment> \<open>a negated class \<open>[^...]\<close>\<close>

datatype re =
    Eps
  | Atom atom
  | Bol                 \<comment> \<open>\<open>^\<close>, without the multiline flag\<close>
  | Star atom           \<comment> \<open>greedy \<open>*\<close>; the pattern only repeats single characters\<close>
  | Seq re re
  | Alt re re
  | Group nat re        \<comment> \<open>a numbered capturing group\<close>

definition lineTerminator :: "char \<Rightarrow> bool" where
  "lineTerminator c = (c = CHR 0x0A \<or> c = CHR 0x0D)"

definition wordChar :: "char \<Rightarrow> bool" where
  "wordChar c =
     (c \<in> set ''abcdefghijklmnopqrstuvwxyzABCDEFGHIJKLMNOPQRSTUVWXYZ0123456789_'')"

fun amatch :: "atom \<Rightarrow> char \<Rightarrow> bool" where
  "amatch (Chr d) c = (c = d)"
| "amatch Dot c = (\<not> lineTerminator c)"
| "amatch Word c = wordChar c"
| "amatch (NoneOf ds) c = (c \<notin> set ds)"

text \<open>
  A matcher state is the index reached in the input, the input that is left from there, and
  the captures made so far.
\<close>

type_synonym captures = "nat \<Rightarrow> string option"
type_synonym mstate = "nat \<times> string \<times> captures"

fun star_m :: "atom \<Rightarrow> nat \<Rightarrow> string \<Rightarrow> captures \<Rightarrow> (mstate \<Rightarrow> mstate option) \<Rightarrow> mstate option" where
  "star_m a i [] c k = k (i, [], c)"
| "star_m a i (ch # cs) c k =
     (if amatch a ch
      then (case star_m a (Suc i) cs c k of
              Some y \<Rightarrow> Some y
            | None \<Rightarrow> k (i, ch # cs, c))
      else k (i, ch # cs, c))"

primrec m :: "re \<Rightarrow> mstate \<Rightarrow> (mstate \<Rightarrow> mstate option) \<Rightarrow> mstate option" where
  "m Eps = (\<lambda>x k. k x)"
| "m (Atom a) = (\<lambda>x k. case x of (i, s, c) \<Rightarrow>
     (case s of [] \<Rightarrow> None
      | ch # cs \<Rightarrow> if amatch a ch then k (Suc i, cs, c) else None))"
| "m Bol = (\<lambda>x k. case x of (i, s, c) \<Rightarrow> if i = 0 then k x else None)"
| "m (Star a) = (\<lambda>x k. case x of (i, s, c) \<Rightarrow> star_m a i s c k)"
| "m (Seq r1 r2) = (\<lambda>x k. m r1 x (\<lambda>y. m r2 y k))"
| "m (Alt r1 r2) = (\<lambda>x k. case m r1 x k of Some y \<Rightarrow> Some y | None \<Rightarrow> m r2 x k)"
| "m (Group n r) = (\<lambda>x k. case x of (i, s, c) \<Rightarrow>
     m r x (\<lambda>y. case y of (j, t, d) \<Rightarrow> k (j, t, d(n \<mapsto> take (j - i) s))))"

text \<open>
  \<open>String.prototype.match\<close> with a pattern that has no global flag tries the start indices
  0, 1, ... in turn and returns the first match.
\<close>

fun exec_from :: "re \<Rightarrow> nat \<Rightarrow> string \<Rightarrow> mstate option" where
  "exec_from r i [] = m r (i, [], Map.empty) Some"
| "exec_from r i (ch # cs) =
     (case m r (i, ch # cs, Map.empty) Some of
        Some y \<Rightarrow> Some y
      | None \<Rightarrow> exec_from r (Suc i) cs)"

definition match :: "string \<Rightarrow> re \<Rightarrow> captures option" where
  "match s r = map_option (\<lambda>y. snd (snd y)) (exec_from r 0 s)"

fun lit :: "string \<Rightarrow> re" where
  "lit [] = Eps"
| "lit (ch # cs) = Seq (Atom (Chr ch)) (lit cs)"

definition markers :: re where
  "markers =
     Alt (Seq (lit ''youtu'') (Seq (Atom Dot) (lit ''be/'')))
    (Alt (lit ''v/'')
    (Alt (Seq (lit ''u/'') (Seq (Atom Word) (lit ''/'')))
    (Alt (lit ''embed/'')
    (Alt (lit ''watch?v='')
         (lit ''&v='')))))"

definition tail :: re where
  "tail = Seq (Group 2 (Star (NoneOf ''#&?''))) (Star Dot)"

definition regExp :: re where
  "regExp = Seq Bol (Seq (Star Dot) (Seq (Group 1 markers) tail))"

datatype error = TypeError | SyntaxError | NetworkError

text \<open>
  \<^verbatim>\<open>return match && match[2].length === 11 ? match[2] : null;\<close>
  Reading \<open>length\<close> of a group that took no part in the match would throw.
\<close>

definition getVideoId :: "string \<Rightarrow> error + string option" where
  "getVideoId url =
     (case match url regExp of
        None \<Rightarrow> Inr None
      | Some caps \<Rightarrow>
          (case caps 2 of
             None \<Rightarrow> Inl TypeError
           | Some g \<Rightarrow> Inr (if length g = 11 then Some g else None)))"


section \<open>The shapes of a URL, stated without the matcher\<close>

text \<open>
  The six alternatives of the first capturing group, read as a test on the text at a
  position. Two places of the pattern take one character from a class: the character
  between \<open>youtu\<close> and \<open>be/\<close>, and the character between \<open>u/\<close> and \<open>/\<close>. Both
  classes are parameters, so that the pattern's own reading and the specification's reading
  are instances of one definition.
\<close>

definition starts :: "string \<Rightarrow> string \<Rightarrow> bool" where
  "starts s w = (take (length w) s = w)"

definition marker_len_of :: "(char \<Rightarrow> bool) \<Rightarrow> (char \<Rightarrow> bool) \<Rightarrow> string \<Rightarrow> nat option" where
  "marker_len_of dotc userc s =
     (if starts s ''youtu'' \<and>
         (case drop 5 s of [] \<Rightarrow> False | c # t \<Rightarrow> dotc c \<and> starts t ''be/'')
        then Some 9
      else if starts s ''v/'' then Some 2
      else if starts s ''u/'' \<and>
         (case drop 2 s of [] \<Rightarrow> False | c # t \<Rightarrow> userc c \<and> starts t ''/'')
        then Some 4
      else if starts s ''embed/'' then Some 6
      else if starts s ''watch?v='' then Some 8
      else if starts s ''&v='' then Some 3
      else None)"

text \<open>The pattern as written: \<open>.\<close> is any character but a line terminator, \<open>\w\<close> a word character.\<close>

definition marker_len :: "string \<Rightarrow> nat option" where
  "marker_len = marker_len_of (\<lambda>c. \<not> lineTerminator c) wordChar"

text \<open>The same list with the dot of \<open>youtu.be/\<close> taken literally.\<close>

definition shape_len :: "string \<Rightarrow> nat option" where
  "shape_len = marker_len_of (\<lambda>c. c = CHR ''.'') wordChar"

text \<open>
  The specification's list of shapes, in its words:
  \<open>youtu.be/\<close>, \<open>v/\<close>, \<open>u/<digit>/\<close>, \<open>embed/\<close>, \<open>watch?v=\<close>, \<open>&v=\<close>.
\<close>

definition digit :: "char \<Rightarrow> bool" where
  "digit c = (c \<in> set ''0123456789'')"

definition spec_shape_len :: "string \<Rightarrow> nat option" where
  "spec_shape_len = marker_len_of (\<lambda>c. c = CHR ''.'') digit"

definition spec_shape_occurs :: "string \<Rightarrow> bool" where
  "spec_shape_occurs s = list_ex (\<lambda>p. spec_shape_len (drop p s) \<noteq> None) [0..<Suc (length s)]"

text \<open>
  A place where the pattern's \<open>.\<close> in \<open>youtu.be/\<close> is matched against a character that is
  not a dot.
\<close>

definition wildcard_used :: "string \<Rightarrow> bool" where
  "wildcard_used s =
     (starts s ''youtu'' \<and>
      (case drop 5 s of [] \<Rightarrow> False
       | c # t \<Rightarrow> c \<noteq> CHR ''.'' \<and> \<not> lineTerminator c \<and> starts t ''be/''))"

text \<open>No suffix of the text makes the pattern use that freedom.\<close>

fun no_wildcard :: "string \<Rightarrow> bool" where
  "no_wildcard [] = True"
| "no_wildcard (ch # cs) = (\<not> wildcard_used (ch # cs) \<and> no_wildcard cs)"

definition separator :: "char \<Rightarrow> bool" where
  "separator c = (c = CHR ''#'' \<or> c = CHR ''&'' \<or> c = CHR ''?'')"

text \<open>The segment at the head of a text: everything up to the first \<open>#\<close>, \<open>&\<close> or \<open>?\<close>.\<close>

definition segment :: "string \<Rightarrow> string" where
  "segment s = takeWhile (\<lambda>c. \<not> separator c) s"

text \<open>Position \<open>p\<close> lies on the first line: no line terminator comes before it.\<close>

definition on_first_line :: "string \<Rightarrow> nat \<Rightarrow> bool" where
  "on_first_line s p = (p \<le> length s \<and> list_all (\<lambda>c. \<not> lineTerminator c) (take p s))"

definition marker_at :: "string \<Rightarrow> nat \<Rightarrow> nat \<Rightarrow> bool" where
  "marker_at s p l = (on_first_line s p \<and> marker_len (drop p s) = Some l)"

definition shape_at :: "string \<Rightarrow> nat \<Rightarrow> nat \<Rightarrow> bool" where
  "shape_at s p l = (on_first_line s p \<and> shape_len (drop p s) = Some l)"

text \<open>Any occurrence of a marker, on whatever line.\<close>

definition marker_occurs_at :: "string \<Rightarrow> nat \<Rightarrow> bool" where
  "marker_occurs_at s p = (p \<le> length s \<and> marker_len (drop p s) \<noteq> None)"

text \<open>
  The position and length of the last marker that starts on the first line, by one pass
  over the text.
\<close>

fun last_marker :: "string \<Rightarrow> (nat \<times> nat) option" where
  "last_marker [] = None"
| "last_marker (ch # cs) =
     (case (if lineTerminator ch then None else last_marker cs) of
        Some (p, l) \<Rightarrow> Some (Suc p, l)
      | None \<Rightarrow> map_option (Pair 0) (marker_len (ch # cs)))"

text \<open>What is left of the pattern once \<open>^.*\<close> has chosen a position.\<close>

definition K :: "mstate \<Rightarrow> mstate option" where
  "K = (\<lambda>y. m (Seq (Group 1 markers) tail) y Some)"


section \<open>The component state and its handlers\<close>

text \<open>
  A value of the language at run time. The body of the lookup's answer is typed \<open>any\<close> in
  the source, so what is read out of it can be any of these.
\<close>

datatype jsvalue =
    Undefined
  | Null
  | Bool bool
  | Num int
  | Str string
  | Arr "jsvalue list"
  | Obj "(string \<times> jsvalue) list"

text \<open>
  Reading a property: it throws on \<open>null\<close> and \<open>undefined\<close>, finds an object's own
  property, and is \<open>undefined\<close> on anything else (only \<open>title\<close> and \<open>author_name\<close> are
  ever read, which no built-in prototype defines).
\<close>

fun get_prop :: "jsvalue \<Rightarrow> string \<Rightarrow> error + jsvalue" where
  "get_prop Undefined k = Inl TypeError"
| "get_prop Null k = Inl TypeError"
| "get_prop (Obj fs) k = Inr (case map_of fs k of None \<Rightarrow> Undefined | Some v \<Rightarrow> v)"
| "get_prop v k = Inr Undefined"

datatype fmt = Mp3 | Mp4

record VideoMetadata =
  title :: jsvalue
  description :: jsvalue
  author :: jsvalue
  thumbnailUrl :: string

record DownloadHistory =
  url :: string
  format :: fmt
  quality :: "string option"
  timestamp :: nat
  metadata :: "VideoMetadata option"

text \<open>The nine state variables of \<open>App\<close>.\<close>

record app_state =
  url :: string
  format :: fmt
  quality :: string
  isDarkMode :: bool
  history :: "DownloadHistory list"
  isLoading :: bool
  progress :: nat
  metadata :: "VideoMetadata option"
  isLoadingMetadata :: bool

text \<open>
  An interval timer as \<open>setInterval\<close> leaves it: the state its callback closed over (the
  state of the render that submitted), the delay it was given, and the clock reading at
  which it fires next.
\<close>

record interval =
  callback :: app_state
  delay :: nat
  due :: nat

text \<open>
  Around the state: the interval timers that are set, the lookups in flight (each with the
  identifier it closed over and the address it asked for), what was written to the console,
  and the clock.
\<close>

record world = app_state +
  timers :: "(nat \<times> interval) list"
  nextTimer :: nat
  inflight :: "(nat \<times> string \<times> string) list"
  nextFetch :: nat
  console :: "(string \<times> error) list"
  clock :: nat

definition initial :: world where
  "initial =
     \<lparr> url = [], format = Mp4, quality = ''720p'', isDarkMode = False, history = [],
       isLoading = False, progress = 0, metadata = None, isLoadingMetadata = False,
       timers = [], nextTimer = 0, inflight = [], nextFetch = 0, console = [], clock = 0 \<rparr>"

text \<open>
  What the network answers to one lookup: \<open>fetch\<close> rejects, or it resolves and
  \<open>response.json()\<close> rejects, or both resolve and give a value.
\<close>

datatype reply = FetchRejected error | JsonRejected error | Json jsvalue

definition oembedUrl :: "string \<Rightarrow> string" where
  "oembedUrl videoId =
     ''https://www.youtube.com/oembed?url=https://www.youtube.com/watch?v='' @ videoId
       @ ''&format=json''"

definition thumbnail :: "string \<Rightarrow> string" where
  "thumbnail videoId = ''https://img.youtube.com/vi/'' @ videoId @ ''/maxresdefault.jpg''"

text \<open>The body of the \<open>try\<close> in \<open>fetchMetadata\<close>, up to the argument of \<open>setMetadata\<close>.\<close>

definition try_body :: "string \<Rightarrow> reply \<Rightarrow> error + VideoMetadata" where
  "try_body videoId r =
     (case r of
        FetchRejected e \<Rightarrow> Inl e
      | JsonRejected e \<Rightarrow> Inl e
      | Json data \<Rightarrow>
          (case get_prop data ''title'' of
             Inl e \<Rightarrow> Inl e
           | Inr t \<Rightarrow>
               (case get_prop data ''author_name'' of
                  Inl e \<Rightarrow> Inl e
                | Inr a \<Rightarrow>
                    (case get_prop data ''title'' of
                       Inl e \<Rightarrow> Inl e
                     | Inr d \<Rightarrow>
                         Inr \<lparr> title = t, description = d, author = a,
                               thumbnailUrl = thumbnail videoId \<rparr>))))"

text \<open>
  \<open>fetchMetadata\<close> from the moment the network has answered: the \<open>try\<close> body, and the
  \<open>catch\<close> that logs and clears. \<open>Inl\<close> would be an error leaving the function.
\<close>

definition fetchMetadata :: "string \<Rightarrow> reply \<Rightarrow> world \<Rightarrow> error + world" where
  "fetchMetadata videoId r w =
     (case try_body videoId r of
        Inr md \<Rightarrow> Inr (w\<lparr>metadata := Some md\<rparr>)
      | Inl e \<Rightarrow>
          Inr (w\<lparr>console := console w @ [(''Error fetching metadata:'', e)],
                  metadata := None\<rparr>))"

text \<open>
  \<open>handleUrlChange\<close> runs in two parts. The first runs when the field is edited, up to
  the first \<open>await\<close>; the second runs when the lookup it started has settled.
\<close>

definition handleUrlChange :: "string \<Rightarrow> world \<Rightarrow> world" where
  "handleUrlChange newUrl w =
     (let w1 = w\<lparr>url := newUrl\<rparr> in
      case getVideoId newUrl of
        Inl e \<Rightarrow> w1
      | Inr None \<Rightarrow> w1\<lparr>metadata := None\<rparr>
      | Inr (Some videoId) \<Rightarrow>
          w1\<lparr>isLoadingMetadata := True,
               inflight := inflight w1 @ [(nextFetch w1, videoId, oembedUrl videoId)],
               nextFetch := Suc (nextFetch w1)\<rparr>)"

definition fetchSettled :: "nat \<Rightarrow> reply \<Rightarrow> world \<Rightarrow> world" where
  "fetchSettled rid r w =
     (case map_of (inflight w) rid of
        None \<Rightarrow> w
      | Some (videoId, req) \<Rightarrow>
          (let w1 = w\<lparr>inflight := filter (\<lambda>f. fst f \<noteq> rid) (inflight w)\<rparr> in
           case fetchMetadata videoId r w1 of
             Inl e \<Rightarrow> w1
           | Inr w2 \<Rightarrow> w2\<lparr>isLoadingMetadata := False\<rparr>))"

text \<open>
  \<open>handleDownload\<close> sets the flag and an interval timer of delay 500, which fires for the
  first time 500 units from now. The callback reads \<open>url\<close>, \<open>format\<close>, \<open>quality\<close> and
  \<open>metadata\<close> from the render in which the handler was created; \<open>progress\<close> and
  \<open>history\<close> it reads through the updater's argument when it runs.
\<close>

definition handleDownload :: "world \<Rightarrow> world" where
  "handleDownload w =
     w\<lparr>isLoading := True,
       timers := timers w @
         [(nextTimer w,
           \<lparr>callback = app_state.truncate w, delay = 500, due = clock w + 500\<rparr>)],
       nextTimer := Suc (nextTimer w)\<rparr>"

definition entry :: "app_state \<Rightarrow> nat \<Rightarrow> DownloadHistory" where
  "entry c now =
     \<lparr> DownloadHistory.url = url c,
       DownloadHistory.format = format c,
       DownloadHistory.quality = (if format c = Mp4 then Some (quality c) else None),
       DownloadHistory.timestamp = now,
       DownloadHistory.metadata = metadata c \<rparr>"

text \<open>One firing of the interval timer \<open>tid\<close> at clock reading \<open>now\<close>; the updater runs once.\<close>

definition tick :: "nat \<Rightarrow> nat \<Rightarrow> world \<Rightarrow> world" where
  "tick tid now w =
     (case map_of (timers w) tid of
        None \<Rightarrow> w
      | Some t \<Rightarrow>
          if progress w \<ge> 100
          then w\<lparr>timers := filter (\<lambda>t. fst t \<noteq> tid) (timers w),
                  isLoading := False,
                  history := entry (callback t) now # history w,
                  progress := 0\<rparr>
          else w\<lparr>progress := progress w + 10\<rparr>)"

text \<open>
  The clock. When it moves on by one unit, every timer that is due at the new reading
  fires and, if it is still set afterwards, is due again one delay later. \<open>elapse d\<close>
  lets \<open>d\<close> units pass.
\<close>

definition reschedule :: "nat \<Rightarrow> world \<Rightarrow> world" where
  "reschedule tid w =
     w\<lparr>timers := map (\<lambda>(i, t). if i = tid then (i, t\<lparr>due := due t + delay t\<rparr>) else (i, t))
                    (timers w)\<rparr>"

fun fire_due :: "(nat \<times> interval) list \<Rightarrow> world \<Rightarrow> world" where
  "fire_due [] w = w"
| "fire_due ((tid, t) # ts) w =
     fire_due ts (if due t = clock w then reschedule tid (tick tid (clock w) w) else w)"

definition tock :: "world \<Rightarrow> world" where
  "tock w = fire_due (timers w) (w\<lparr>clock := Suc (clock w)\<rparr>)"

fun elapse :: "nat \<Rightarrow> world \<Rightarrow> world" where
  "elapse 0 w = w"
| "elapse (Suc d) w = elapse d (tock w)"

definition clearHistory :: "world \<Rightarrow> world" where
  "clearHistory w = w\<lparr>history := []\<rparr>"

text \<open>\<^verbatim>\<open>disabled={isLoading || !metadata}\<close>\<close>

definition submitDisabled :: "world \<Rightarrow> bool" where
  "submitDisabled w = (isLoading w \<or> metadata w = None)"

datatype event =
    UrlChange string
  | FetchSettled nat reply
  | Submit
  | Tick nat nat
  | SetFormat fmt
  | SetQuality string
  | ToggleDarkMode
  | ClearHistory
  | Elapse nat

text \<open>
  What each event runs. \<open>Tick\<close> is a timer's callback running at some moment, with no
  assumption on when; \<open>Elapse\<close> is time passing, with every timer firing when it is due.
\<close>

fun fire :: "event \<Rightarrow> world \<Rightarrow> world" where
  "fire (UrlChange u) w = handleUrlChange u w"
| "fire (FetchSettled rid r) w = fetchSettled rid r w"
| "fire Submit w = handleDownload w"
| "fire (Tick tid now) w = tick tid now w"
| "fire (SetFormat f) w = w\<lparr>format := f\<rparr>"
| "fire (SetQuality q) w = w\<lparr>quality := q\<rparr>"
| "fire ToggleDarkMode w = w\<lparr>isDarkMode := \<not> isDarkMode w\<rparr>"
| "fire ClearHistory w = clearHistory w"
| "fire (Elapse d) w = elapse d w"

text \<open>
  What the page lets happen: the form is submitted only through a submit control that is
  not disabled, a lookup settles only while in flight, a timer fires only while set, the
  quality selector is rendered only for mp4 and the clear control only over a history
  that is not empty.
\<close>

fun enabled :: "event \<Rightarrow> world \<Rightarrow> bool" where
  "enabled Submit w = (\<not> submitDisabled w)"
| "enabled (FetchSettled rid r) w = (map_of (inflight w) rid \<noteq> None)"
| "enabled (Tick tid now) w = (map_of (timers w) tid \<noteq> None)"
| "enabled (SetQuality q) w = (format w = Mp4 \<and> q \<in> set [''1080p'', ''720p'', ''480p'', ''360p''])"
| "enabled ClearHistory w = (history w \<noteq> [])"
| "enabled e w = True"

definition step :: "event \<Rightarrow> world \<Rightarrow> world" where
  "step e w = (if enabled e w then fire e w else w)"

text \<open>A session of the page, and a sequence of handler calls with no page in between.\<close>

fun run :: "event list \<Rightarrow> world \<Rightarrow> world" where
  "run [] w = w"
| "run (e # es) w = run es (step e w)"

fun fires :: "event list \<Rightarrow> world \<Rightarrow> world" where
  "fires [] w = w"
| "fires (e # es) w = fires es (fire e w)"

text \<open>The timer \<open>tid\<close> firing at each of the clock readings in turn.\<close>

fun ticks :: "nat \<Rightarrow> nat list \<Rightarrow> world \<Rightarrow> world" where
  "ticks tid [] w = w"
| "ticks tid (now # nows) w = ticks tid nows (tick tid now w)"




text \<open>
  The error with which the \<open>try\<close> block of \<open>fetchMetadata\<close> throws on a reply, if it does:
  a rejected promise, or a property read off \<open>null\<close> or \<open>undefined\<close>.
\<close>

fun thrown :: "reply \<Rightarrow> error option" where
  "thrown (FetchRejected e) = Some e"
| "thrown (JsonRejected e) = Some e"
| "thrown (Json Null) = Some TypeError"
| "thrown (Json Undefined) = Some TypeError"
| "thrown (Json v) = None"


text \<open>
  While a simulated download runs exactly one timer is set; otherwise none is and the
  progress is at 0.
\<close>

definition simulator_inv :: "world \<Rightarrow> bool" where
  "simulator_inv w =
     (if isLoading w then length (timers w) = 1 else timers w = [] \<and> progress w = 0)"

text \<open>Every entry of the history has a quality exactly when its format is mp4.\<close>

definition history_ok :: "world \<Rightarrow> bool" where
  "history_ok w =
     list_all (\<lambda>e. (DownloadHistory.quality e \<noteq> None) = (DownloadHistory.format e = Mp4))
       (history w)"

section \<open>The identifier extractor\<close>

subsection \<open>The matcher on the parts of the pattern\<close>

lemma starts_Cons: "starts s (a # w) = (case s of [] \<Rightarrow> False | x # xs \<Rightarrow> x = a \<and> starts xs w)"
  by (cases s) (auto simp: starts_def)

lemma starts_Nil: "starts s []"
  by (simp add: starts_def)

lemma m_lit:
  "m (lit w) (i, s, c) k = (if starts s w then k (i + length w, drop (length w) s, c) else None)"
proof (induction w arbitrary: i s)
  case Nil
  show ?case by (simp add: starts_Nil)
next
  case (Cons a w)
  show ?case
    by (cases s) (simp_all add: starts_Cons Cons.IH)
qed

lemma m_markers:
  "m markers (i, s, c) k =
     (case marker_len s of None \<Rightarrow> None | Some l \<Rightarrow> k (i + l, drop l s, c))"
proof (cases s)
  case Nil
  then show ?thesis
    by (simp add: markers_def marker_len_def marker_len_of_def m_lit starts_Cons)
next
  case (Cons x xs)
  consider "x = CHR ''y''" | "x = CHR ''v''" | "x = CHR ''u''" | "x = CHR ''e''"
    | "x = CHR ''w''" | "x = CHR ''&''"
    | "x \<noteq> CHR ''y''" "x \<noteq> CHR ''v''" "x \<noteq> CHR ''u''" "x \<noteq> CHR ''e''"
      "x \<noteq> CHR ''w''" "x \<noteq> CHR ''&''"
    by blast
  then show ?thesis
    by cases
      (auto simp add: Cons markers_def marker_len_def marker_len_of_def m_lit starts_Cons
         starts_Nil eval_nat_numeral split: list.splits option.splits)
qed

lemma star_m_total:
  assumes "\<And>x. k x \<noteq> None"
  shows "star_m a i s c k = k (i + length (takeWhile (amatch a) s), dropWhile (amatch a) s, c)"
proof (induction s arbitrary: i)
  case Nil
  show ?case by simp
next
  case (Cons ch cs)
  show ?case
  proof (cases "amatch a ch")
    case True
    from assms obtain y
      where "k (Suc i + length (takeWhile (amatch a) cs), dropWhile (amatch a) cs, c) = Some y"
      by blast
    with True show ?thesis by (simp add: Cons.IH)
  next
    case False
    then show ?thesis by simp
  qed
qed

lemma star_m_Some: "star_m a i s c Some \<noteq> None"
  by (simp add: star_m_total)

lemma amatch_NoneOf_separator: "amatch (NoneOf ''#&?'') = (\<lambda>c. \<not> separator c)"
  by (auto simp: separator_def)

lemma m_tail: "\<exists>j t. m tail (i, s, c) Some = Some (j, t, c(2 \<mapsto> segment s))"
proof -
  let ?k = "\<lambda>y. case y of (j, t, d) \<Rightarrow> star_m Dot j t (d(2 \<mapsto> take (j - i) s)) Some"
  have tot: "\<And>x. ?k x \<noteq> None"
    by (simp split: prod.splits del: not_None_eq add: star_m_Some)
  have "m tail (i, s, c) Some = star_m (NoneOf ''#&?'') i s c ?k"
    by (simp add: tail_def)
  also have "\<dots> = ?k (i + length (takeWhile (amatch (NoneOf ''#&?'')) s),
                      dropWhile (amatch (NoneOf ''#&?'')) s, c)"
    by (rule star_m_total) (rule tot)
  finally show ?thesis
    by (simp add: star_m_total segment_def takeWhile_eq_take [symmetric]
          amatch_NoneOf_separator del: amatch.simps)
qed

lemma K_None: "marker_len s = None \<Longrightarrow> K (i, s, c) = None"
  by (simp add: K_def m_markers)

lemma K_Some:
  "marker_len s = Some l \<Longrightarrow>
     \<exists>j t. K (i, s, c) = Some (j, t, c(1 \<mapsto> take l s, 2 \<mapsto> segment (drop l s)))"
  using m_tail [of "i + l" "drop l s" "c(1 \<mapsto> take l s)"]
  by (simp add: K_def m_markers)

lemma marker_len_Nil: "marker_len [] = None"
  by (simp add: marker_len_def marker_len_of_def starts_Cons)

lemma last_marker_len:
  "last_marker s = Some (p, l) \<Longrightarrow> marker_len (drop p s) = Some l"
  by (induction s arbitrary: p) (auto split: option.splits if_splits)

lemma star_Dot_K:
  "star_m Dot i s c K =
     (case last_marker s of None \<Rightarrow> None | Some (p, l) \<Rightarrow> K (i + p, drop p s, c))"
proof (induction s arbitrary: i)
  case Nil
  show ?case by (simp add: K_None marker_len_Nil)
next
  case (Cons ch cs)
  show ?case
  proof (cases "lineTerminator ch")
    case True
    then show ?thesis
      by (auto simp: K_None split: option.splits)
  next
    case False
    show ?thesis
    proof (cases "last_marker cs")
      case None
      with False show ?thesis
        by (auto simp: Cons.IH K_None split: option.splits)
    next
      case (Some pl)
      obtain p l where pl: "pl = (p, l)" by (cases pl)
      from Some pl have "marker_len (drop p cs) = Some l"
        by (simp add: last_marker_len)
      from K_Some [OF this, of "Suc (i + p)" c]
      obtain y where "K (Suc (i + p), drop p cs, c) = Some y" by blast
      with False Some pl show ?thesis
        by (simp add: Cons.IH)
    qed
  qed
qed

lemma m_regExp:
  "m regExp (i, s, Map.empty) Some = (if i = 0 then star_m Dot 0 s Map.empty K else None)"
  by (simp add: regExp_def K_def)

lemma exec_from_pos: "0 < i \<Longrightarrow> exec_from regExp i s = None"
  by (induction s arbitrary: i) (simp_all add: m_regExp)

lemma exec_from_regExp: "exec_from regExp 0 s = star_m Dot 0 s Map.empty K"
  by (cases s) (auto simp: m_regExp exec_from_pos split: option.splits)

lemma match_regExp:
  "match s regExp =
     (case last_marker s of
        None \<Rightarrow> None
      | Some (p, l) \<Rightarrow> Some [1 \<mapsto> take l (drop p s), 2 \<mapsto> segment (drop (p + l) s)])"
proof (cases "last_marker s")
  case None
  then show ?thesis
    by (simp add: match_def exec_from_regExp star_Dot_K)
next
  case (Some pl)
  obtain p l where pl: "pl = (p, l)" by (cases pl)
  from Some pl have "marker_len (drop p s) = Some l"
    by (simp add: last_marker_len)
  from K_Some [OF this, of p Map.empty]
  obtain j t where "K (p, drop p s, Map.empty) =
      Some (j, t, [1 \<mapsto> take l (drop p s), 2 \<mapsto> segment (drop l (drop p s))])"
    by blast
  with Some pl show ?thesis
    by (simp add: match_def exec_from_regExp star_Dot_K add.commute)
qed

lemma getVideoId_eq:
  "getVideoId s =
     (case last_marker s of
        None \<Rightarrow> Inr None
      | Some (p, l) \<Rightarrow>
          Inr (if length (segment (drop (p + l) s)) = 11
               then Some (segment (drop (p + l) s)) else None))"
  by (simp add: getVideoId_def match_regExp split: option.splits)

subsection \<open>The last marker on the first line\<close>

lemma marker_at_Nil: "\<not> marker_at [] q l"
  by (simp add: marker_at_def on_first_line_def marker_len_Nil)

lemma marker_at_Cons_0: "marker_at (ch # cs) 0 l = (marker_len (ch # cs) = Some l)"
  by (simp add: marker_at_def on_first_line_def)

lemma marker_at_Cons_Suc:
  "marker_at (ch # cs) (Suc q) l = (\<not> lineTerminator ch \<and> marker_at cs q l)"
  by (auto simp: marker_at_def on_first_line_def)

lemma last_marker_None: "last_marker s = None \<longleftrightarrow> (\<forall>q l. \<not> marker_at s q l)"
proof (induction s)
  case Nil
  show ?case by (simp add: marker_at_Nil)
next
  case (Cons ch cs)
  have "(\<forall>q l. \<not> marker_at (ch # cs) q l) \<longleftrightarrow>
        (\<forall>l. \<not> marker_at (ch # cs) 0 l) \<and> (\<forall>q l. \<not> marker_at (ch # cs) (Suc q) l)"
    by (metis not0_implies_Suc)
  then show ?case
    using Cons.IH
    by (auto simp: marker_at_Cons_0 marker_at_Cons_Suc split: option.splits)
qed

lemma last_marker_Some:
  "last_marker s = Some (p, l) \<longleftrightarrow>
     marker_at s p l \<and> (\<forall>q l'. marker_at s q l' \<longrightarrow> q \<le> p)"
proof (induction s arbitrary: p l)
  case Nil
  show ?case by (simp add: marker_at_Nil)
next
  case (Cons ch cs)
  show ?case
  proof (cases "lineTerminator ch \<or> last_marker cs = None")
    case True
    then have no: "\<And>q l'. \<not> marker_at (ch # cs) (Suc q) l'"
      by (auto simp: marker_at_Cons_Suc last_marker_None)
    from True have "last_marker (ch # cs) = map_option (Pair 0) (marker_len (ch # cs))"
      by auto
    moreover have "\<And>q l'. marker_at (ch # cs) q l' \<Longrightarrow> q = 0"
      using no by (metis not0_implies_Suc)
    ultimately show ?thesis
      using no
      by (cases p) (auto simp: marker_at_Cons_0)
  next
    case False
    then obtain p' l' where s: "last_marker cs = Some (p', l')" and nl: "\<not> lineTerminator ch"
      by auto
    from s Cons.IH [of p' l'] have at: "marker_at cs p' l'"
      and mx: "\<And>q l''. marker_at cs q l'' \<Longrightarrow> q \<le> p'"
      by auto
    have lm: "last_marker (ch # cs) = Some (Suc p', l')"
      using s nl by simp
    show ?thesis
    proof
      assume "last_marker (ch # cs) = Some (p, l)"
      with lm have "p = Suc p'" "l = l'" by auto
      have "q \<le> Suc p'" if "marker_at (ch # cs) q l''" for q l''
        using that mx by (cases q) (auto simp: marker_at_Cons_Suc)
      with at nl \<open>p = Suc p'\<close> \<open>l = l'\<close>
      show "marker_at (ch # cs) p l \<and> (\<forall>q l'. marker_at (ch # cs) q l' \<longrightarrow> q \<le> p)"
        by (auto simp: marker_at_Cons_Suc)
    next
      assume r: "marker_at (ch # cs) p l \<and> (\<forall>q l'. marker_at (ch # cs) q l' \<longrightarrow> q \<le> p)"
      from at nl have "marker_at (ch # cs) (Suc p') l'"
        by (simp add: marker_at_Cons_Suc)
      with r have "Suc p' \<le> p" by blast
      then obtain p0 where p0: "p = Suc p0" by (cases p) auto
      with r nl have "marker_at cs p0 l" by (simp add: marker_at_Cons_Suc)
      moreover from this mx have "p0 \<le> p'" by blast
      ultimately have "p0 = p'" "l = l'"
        using \<open>Suc p' \<le> p\<close> p0 at by (auto simp: marker_at_def)
      with lm p0 show "last_marker (ch # cs) = Some (p, l)" by simp
    qed
  qed
qed

subsection \<open>Reading the pattern's dot as a dot\<close>

lemma no_wildcard_drop: "no_wildcard s \<Longrightarrow> \<not> wildcard_used (drop p s)"
proof (induction s arbitrary: p)
  case Nil
  show ?case by (simp add: wildcard_used_def starts_Cons)
next
  case (Cons ch cs)
  then show ?case by (cases p) auto
qed

lemma marker_len_shape_len: "\<not> wildcard_used t \<Longrightarrow> marker_len t = shape_len t"
  by (auto simp: wildcard_used_def marker_len_def shape_len_def marker_len_of_def lineTerminator_def
      split: list.splits)

lemma marker_at_shape_at: "no_wildcard s \<Longrightarrow> marker_at s p l = shape_at s p l"
  by (simp add: marker_at_def shape_at_def marker_len_shape_len no_wildcard_drop)

subsection \<open>What the extractor returns\<close>

text \<open>
  Claim C1, as amended. On an input in which the character between \<open>youtu\<close> and \<open>be/\<close>
  is a dot wherever that alternative applies, the extractor returns \<open>v\<close> exactly when: some
  position of the first line carries one of the shapes \<open>youtu.be/\<close>, \<open>v/\<close>,
  \<open>u/<word character>/\<close>, \<open>embed/\<close>, \<open>watch?v=\<close>, \<open>&v=\<close>; it is the last such
  position of the first line; and \<open>v\<close> is the text from the end of the shape up to the
  next \<open>#\<close>, \<open>&\<close> or \<open>?\<close> (or the end of the input) and has length 11. On every other
  such input it returns none, and it never throws.
\<close>

theorem getVideoId_by_shapes:
  assumes "no_wildcard s"
  shows "(getVideoId s = Inr (Some v) \<longleftrightarrow>
            (\<exists>p l. shape_at s p l \<and> (\<forall>q l'. shape_at s q l' \<longrightarrow> q \<le> p) \<and>
                   v = segment (drop (p + l) s) \<and> length v = 11))
         \<and> ((\<forall>v. getVideoId s \<noteq> Inr (Some v)) \<longrightarrow> getVideoId s = Inr None)"
proof
  show "getVideoId s = Inr (Some v) \<longleftrightarrow>
            (\<exists>p l. shape_at s p l \<and> (\<forall>q l'. shape_at s q l' \<longrightarrow> q \<le> p) \<and>
                   v = segment (drop (p + l) s) \<and> length v = 11)"
  proof
    assume g: "getVideoId s = Inr (Some v)"
    then obtain p l where lm: "last_marker s = Some (p, l)"
      by (cases "last_marker s") (auto simp: getVideoId_eq)
    with g have "v = segment (drop (p + l) s)" "length v = 11"
      by (auto simp: getVideoId_eq split: if_splits)
    moreover from lm have "shape_at s p l \<and> (\<forall>q l'. shape_at s q l' \<longrightarrow> q \<le> p)"
      by (simp add: last_marker_Some marker_at_shape_at [OF assms])
    ultimately show "\<exists>p l. shape_at s p l \<and> (\<forall>q l'. shape_at s q l' \<longrightarrow> q \<le> p) \<and>
                   v = segment (drop (p + l) s) \<and> length v = 11"
      by blast
  next
    assume "\<exists>p l. shape_at s p l \<and> (\<forall>q l'. shape_at s q l' \<longrightarrow> q \<le> p) \<and>
                   v = segment (drop (p + l) s) \<and> length v = 11"
    then obtain p l where sh: "shape_at s p l \<and> (\<forall>q l'. shape_at s q l' \<longrightarrow> q \<le> p)"
      and v: "v = segment (drop (p + l) s)" "length v = 11"
      by blast
    from sh have "last_marker s = Some (p, l)"
      by (simp add: last_marker_Some marker_at_shape_at [OF assms])
    with v show "getVideoId s = Inr (Some v)"
      by (simp add: getVideoId_eq)
  qed
next
  show "(\<forall>v. getVideoId s \<noteq> Inr (Some v)) \<longrightarrow> getVideoId s = Inr None"
    by (auto simp: getVideoId_eq split: option.splits)
qed

theorem getVideoId_by_shapes_witness:
  "no_wildcard ''https://www.youtu.be/dQw4w9WgXcQ'' \<and>
   getVideoId ''https://www.youtu.be/dQw4w9WgXcQ'' = Inr (Some ''dQw4w9WgXcQ'') \<and>
   (\<exists>p l. shape_at ''https://www.youtu.be/dQw4w9WgXcQ'' p l \<and>
          ''dQw4w9WgXcQ'' = segment (drop (p + l) ''https://www.youtu.be/dQw4w9WgXcQ''))"
proof -
  have h: "no_wildcard ''https://www.youtu.be/dQw4w9WgXcQ''"
    by (simp add: wildcard_used_def starts_def)
  have g: "getVideoId ''https://www.youtu.be/dQw4w9WgXcQ'' = Inr (Some ''dQw4w9WgXcQ'')"
    by code_simp
  from getVideoId_by_shapes [OF h, of "''dQw4w9WgXcQ''"] g h show ?thesis
    by blast
qed

text \<open>
  The claim as written fails twice. \<open>u/a/\<close> is no shape of the specification's list (the
  character after \<open>u/\<close> is not a digit), yet the eleven characters after it are returned.
  And a text that has \<open>watch?v=\<close> followed by an eleven-character identifier is refused
  when a later \<open>&v=\<close> is followed by something shorter.
\<close>

theorem getVideoId_by_shapes_counterexample:
  "\<not> spec_shape_occurs ''u/a/ABCDEFGHIJK'' \<and>
   getVideoId ''u/a/ABCDEFGHIJK'' = Inr (Some ''ABCDEFGHIJK'') \<and>
   spec_shape_len ''watch?v=ABCDEFGHIJK&v=short'' = Some 8 \<and>
   segment (drop 8 ''watch?v=ABCDEFGHIJK&v=short'') = ''ABCDEFGHIJK'' \<and>
   getVideoId ''watch?v=ABCDEFGHIJK&v=short'' = Inr None"
  by code_simp

text \<open>
  Claim C10, as amended. When markers occur in the input, the one that decides is the last
  one that starts on the first line: the second group captures the segment after it, and
  the extractor's answer is that segment when its length is 11 and none otherwise.
\<close>

theorem regExp_captures_after_last_marker:
  assumes "marker_at s p l" and "\<forall>q l'. marker_at s q l' \<longrightarrow> q \<le> p"
  shows "match s regExp = Some [1 \<mapsto> take l (drop p s), 2 \<mapsto> segment (drop (p + l) s)]
         \<and> getVideoId s = Inr (if length (segment (drop (p + l) s)) = 11
                               then Some (segment (drop (p + l) s)) else None)"
proof -
  from assms have "last_marker s = Some (p, l)"
    by (simp add: last_marker_Some)
  then show ?thesis
    by (simp add: match_regExp getVideoId_eq)
qed

theorem regExp_captures_after_last_marker_witness:
  "marker_at ''watch?v=ABCDEFGHIJK&v=short'' 19 3 \<and>
   match ''watch?v=ABCDEFGHIJK&v=short'' regExp = Some [1 \<mapsto> ''&v='', 2 \<mapsto> ''short''] \<and>
   getVideoId ''watch?v=ABCDEFGHIJK&v=short'' = Inr None"
proof -
  have lm: "last_marker ''watch?v=ABCDEFGHIJK&v=short'' = Some (19, 3)"
    by code_simp
  note ab = iffD1 [OF last_marker_Some lm]
  from ab have a: "marker_at ''watch?v=ABCDEFGHIJK&v=short'' 19 3" ..
  from ab have b: "\<forall>q l'. marker_at ''watch?v=ABCDEFGHIJK&v=short'' q l' \<longrightarrow> q \<le> 19" ..
  from regExp_captures_after_last_marker [OF a b] a show ?thesis
    by (simp add: segment_def separator_def)
qed

text \<open>
  As written the claim fails when the last occurrence lies behind a line break: of the two
  occurrences of \<open>v/\<close> below, the second is the last in the string and is followed by an
  eleven-character segment, but the group captures what follows the first one.
\<close>

theorem regExp_captures_after_last_marker_counterexample:
  "marker_occurs_at (''v/AAAAAAAAAAA'' @ [CHR 0x0A] @ ''v/BBBBBBBBBBB'') 0 \<and>
   marker_occurs_at (''v/AAAAAAAAAAA'' @ [CHR 0x0A] @ ''v/BBBBBBBBBBB'') 14 \<and>
   filter (marker_occurs_at (''v/AAAAAAAAAAA'' @ [CHR 0x0A] @ ''v/BBBBBBBBBBB'')) [0..<27] = [0, 14] \<and>
   segment (drop 16 (''v/AAAAAAAAAAA'' @ [CHR 0x0A] @ ''v/BBBBBBBBBBB'')) = ''BBBBBBBBBBB'' \<and>
   map_option (\<lambda>c. c 2) (match (''v/AAAAAAAAAAA'' @ [CHR 0x0A] @ ''v/BBBBBBBBBBB'') regExp)
     = Some (Some (''AAAAAAAAAAA'' @ [CHR 0x0A] @ ''v/BBBBBBBBBBB'')) \<and>
   getVideoId (''v/AAAAAAAAAAA'' @ [CHR 0x0A] @ ''v/BBBBBBBBBBB'') = Inr None"
  by code_simp


section \<open>The page: lookups, the simulated download, the history\<close>

subsection \<open>The progress timer\<close>

lemma tick_running:
  "map_of (timers w) tid = Some c \<Longrightarrow> progress w < 100 \<Longrightarrow>
     tick tid now w = w\<lparr>progress := progress w + 10\<rparr>"
  by (simp add: tick_def)

lemma tick_complete:
  "map_of (timers w) tid = Some c \<Longrightarrow> 100 \<le> progress w \<Longrightarrow>
     tick tid now w =
       w\<lparr>timers := filter (\<lambda>t. fst t \<noteq> tid) (timers w), isLoading := False,
          history := entry (callback c) now # history w, progress := 0\<rparr>"
  by (simp add: tick_def)

lemma tick_no_timer: "map_of (timers w) tid = None \<Longrightarrow> tick tid now w = w"
  by (simp add: tick_def)

lemma ticks_no_timer: "map_of (timers w) tid = None \<Longrightarrow> ticks tid nows w = w"
  by (induction nows) (simp_all add: tick_no_timer)

lemma ticks_append: "ticks tid (xs @ ys) w = ticks tid ys (ticks tid xs w)"
  by (induction xs arbitrary: w) simp_all

lemma ticks_running:
  "map_of (timers w) tid = Some c \<Longrightarrow> progress w + 10 * length nows \<le> 100 \<Longrightarrow>
     ticks tid nows w = w\<lparr>progress := progress w + 10 * length nows\<rparr>"
proof (induction nows arbitrary: w)
  case Nil
  show ?case by simp
next
  case (Cons now nows)
  from Cons.prems have lt: "progress w < 100" by simp
  let ?w = "w\<lparr>progress := progress w + 10\<rparr>"
  have "ticks tid (now # nows) w = ticks tid nows ?w"
    by (simp add: tick_running [OF Cons.prems(1) lt])
  also have "\<dots> = ?w\<lparr>progress := progress ?w + 10 * length nows\<rparr>"
    using Cons.prems by (intro Cons.IH) simp_all
  finally show ?case by simp
qed

lemma handleDownload_timer:
  "timers w = [] \<Longrightarrow>
     map_of (timers (handleDownload w)) (nextTimer w) =
       Some \<lparr>callback = app_state.truncate w, delay = 500, due = clock w + 500\<rparr>"
  by (simp add: handleDownload_def)

lemma simulation_progress:
  assumes "timers w = []" and "progress w = 0" and "length nows \<le> 10"
  shows "ticks (nextTimer w) nows (handleDownload w) =
           (handleDownload w)\<lparr>progress := 10 * length nows\<rparr>"
proof -
  have "progress (handleDownload w) + 10 * length nows \<le> 100"
    using assms by (simp add: handleDownload_def)
  from ticks_running [OF handleDownload_timer [OF assms(1)] this]
  show ?thesis using assms(2) by (simp add: handleDownload_def)
qed

lemma simulation_complete:
  assumes "timers w = []" and "progress w = 0" and "length nows = 10"
  shows "ticks (nextTimer w) (nows @ [now]) (handleDownload w) =
           w\<lparr>isLoading := False, history := entry (app_state.truncate w) now # history w,
              nextTimer := Suc (nextTimer w)\<rparr>"
proof -
  let ?w = "(handleDownload w)\<lparr>progress := 10 * length nows\<rparr>"
  have t: "map_of (timers ?w) (nextTimer w) =
      Some \<lparr>callback = app_state.truncate w, delay = 500, due = clock w + 500\<rparr>"
    using assms(1) by (simp add: handleDownload_def)
  have p: "100 \<le> progress ?w" using assms(3) by simp
  have "ticks (nextTimer w) (nows @ [now]) (handleDownload w) = tick (nextTimer w) now ?w"
    using assms by (simp add: ticks_append simulation_progress)
  also note tick_complete [OF t p]
  finally show ?thesis
    using assms by (simp add: handleDownload_def)
qed


subsection \<open>Invariants of a session\<close>

lemma simulator_inv_initial: "simulator_inv initial"
  by (simp add: simulator_inv_def initial_def)

lemma simulator_inv_handleUrlChange: "simulator_inv (handleUrlChange u w) = simulator_inv w"
  by (simp add: simulator_inv_def handleUrlChange_def Let_def split: sum.splits option.splits)

lemma simulator_inv_fetchSettled: "simulator_inv (fetchSettled rid r w) = simulator_inv w"
  by (simp add: simulator_inv_def fetchSettled_def fetchMetadata_def Let_def
      split: sum.splits option.splits prod.splits)

lemma simulator_inv_tick: "simulator_inv w \<Longrightarrow> simulator_inv (tick tid now w)"
proof (cases "map_of (timers w) tid")
  case None
  then show "simulator_inv w \<Longrightarrow> ?thesis" by (simp add: tick_def)
next
  case (Some c)
  assume inv: "simulator_inv w"
  from Some have ne: "timers w \<noteq> []" by auto
  with inv have one: "length (timers w) = 1" and ld: "isLoading w"
    by (auto simp: simulator_inv_def split: if_splits)
  from one obtain t where t: "timers w = [t]"
    by (cases "timers w") auto
  with Some have "fst t = tid" by (cases t) (auto split: if_splits)
  with Some t ld show ?thesis
    by (simp add: tick_def simulator_inv_def)
qed

lemma simulator_inv_reschedule: "simulator_inv (reschedule tid w) = simulator_inv w"
  by (simp add: simulator_inv_def reschedule_def)

lemma simulator_inv_clock: "simulator_inv (w\<lparr>clock := t\<rparr>) = simulator_inv w"
  by (simp add: simulator_inv_def)

lemma simulator_inv_fire_due: "simulator_inv w \<Longrightarrow> simulator_inv (fire_due ts w)"
proof (induction ts arbitrary: w)
  case Nil
  then show ?case by simp
next
  case (Cons x ts)
  obtain tid t where x: "x = (tid, t)" by (cases x)
  from Cons.prems show ?case
    unfolding x by (auto intro!: Cons.IH simp: simulator_inv_reschedule simulator_inv_tick)
qed

lemma simulator_inv_tock: "simulator_inv w \<Longrightarrow> simulator_inv (tock w)"
  by (simp add: tock_def simulator_inv_fire_due simulator_inv_clock)

lemma simulator_inv_elapse: "simulator_inv w \<Longrightarrow> simulator_inv (elapse d w)"
  by (induction d arbitrary: w) (simp_all add: simulator_inv_tock)

lemma simulator_inv_step: "simulator_inv w \<Longrightarrow> simulator_inv (step e w)"
proof (cases e)
  case (UrlChange u)
  then show "simulator_inv w \<Longrightarrow> ?thesis"
    by (simp add: step_def simulator_inv_handleUrlChange)
next
  case (FetchSettled rid r)
  then show "simulator_inv w \<Longrightarrow> ?thesis"
    by (simp add: step_def simulator_inv_fetchSettled)
next
  case Submit
  then show "simulator_inv w \<Longrightarrow> ?thesis"
    by (auto simp: step_def simulator_inv_def submitDisabled_def handleDownload_def)
next
  case (Tick tid now)
  then show "simulator_inv w \<Longrightarrow> ?thesis"
    by (simp add: step_def simulator_inv_tick)
next
  case (Elapse d)
  then show "simulator_inv w \<Longrightarrow> ?thesis"
    by (simp add: step_def simulator_inv_elapse)
qed (simp_all add: step_def simulator_inv_def clearHistory_def)

lemma simulator_inv_run: "simulator_inv w \<Longrightarrow> simulator_inv (run evs w)"
  by (induction evs arbitrary: w) (simp_all add: simulator_inv_step)

lemma history_ok_entry:
  "(DownloadHistory.quality (entry c now) \<noteq> None) = (DownloadHistory.format (entry c now) = Mp4)"
  by (simp add: entry_def)

lemma history_ok_tick: "history_ok w \<Longrightarrow> history_ok (tick tid now w)"
  by (simp add: history_ok_def tick_def entry_def split: option.splits)

lemma history_ok_reschedule: "history_ok (reschedule tid w) = history_ok w"
  by (simp add: history_ok_def reschedule_def)

lemma history_ok_fire_due: "history_ok w \<Longrightarrow> history_ok (fire_due ts w)"
proof (induction ts arbitrary: w)
  case Nil
  then show ?case by simp
next
  case (Cons x ts)
  obtain tid t where x: "x = (tid, t)" by (cases x)
  from Cons.prems show ?case
    unfolding x by (auto intro!: Cons.IH simp: history_ok_reschedule history_ok_tick)
qed

lemma history_ok_tock: "history_ok w \<Longrightarrow> history_ok (tock w)"
proof -
  assume "history_ok w"
  then have "history_ok (w\<lparr>clock := Suc (clock w)\<rparr>)"
    by (simp add: history_ok_def)
  then show ?thesis
    unfolding tock_def by (rule history_ok_fire_due)
qed

lemma history_ok_elapse: "history_ok w \<Longrightarrow> history_ok (elapse d w)"
  by (induction d arbitrary: w) (simp_all add: history_ok_tock)

lemma history_ok_fire: "history_ok w \<Longrightarrow> history_ok (fire e w)"
proof (cases e)
  case (UrlChange u)
  then show "history_ok w \<Longrightarrow> ?thesis"
    by (simp add: history_ok_def handleUrlChange_def Let_def split: sum.splits option.splits)
next
  case (FetchSettled rid r)
  then show "history_ok w \<Longrightarrow> ?thesis"
    by (simp add: history_ok_def fetchSettled_def fetchMetadata_def Let_def
        split: sum.splits option.splits prod.splits)
next
  case (Tick tid now)
  then show "history_ok w \<Longrightarrow> ?thesis"
    by (simp add: history_ok_tick)
next
  case (Elapse d)
  then show "history_ok w \<Longrightarrow> ?thesis"
    by (simp add: history_ok_elapse)
qed (simp_all add: history_ok_def handleDownload_def clearHistory_def)

lemma history_ok_fires: "history_ok w \<Longrightarrow> history_ok (fires evs w)"
  by (induction evs arbitrary: w) (simp_all add: history_ok_fire)

lemma history_ok_initial: "history_ok initial"
  by (simp add: history_ok_def initial_def)

subsection \<open>Lookups\<close>

text \<open>
  Claim C5. When the lookup succeeds (both promises resolve and the two properties can be
  read off the answer), the metadata that is set has the answer's \<open>title\<close> as title and as
  description, the answer's \<open>author_name\<close> as author, and as thumbnail address the fixed
  image-host template filled with the identifier and with nothing else.
\<close>

theorem lookup_success_metadata:
  assumes "r = Json data"
    and "get_prop data ''title'' = Inr t"
    and "get_prop data ''author_name'' = Inr a"
  shows "fetchMetadata videoId r w =
           Inr (w\<lparr>metadata := Some \<lparr>title = t, description = t, author = a,
                    thumbnailUrl = ''https://img.youtube.com/vi/'' @ videoId @ ''/maxresdefault.jpg''\<rparr>\<rparr>)"
  using assms by (simp add: fetchMetadata_def try_body_def thumbnail_def)

theorem lookup_success_metadata_witness:
  "fetchMetadata ''dQw4w9WgXcQ''
     (Json (Obj [(''title'', Str ''Song''), (''author_name'', Str ''Singer'')])) initial =
   Inr (initial\<lparr>metadata := Some \<lparr>title = Str ''Song'', description = Str ''Song'',
          author = Str ''Singer'',
          thumbnailUrl = ''https://img.youtube.com/vi/dQw4w9WgXcQ/maxresdefault.jpg''\<rparr>\<rparr>)"
  using lookup_success_metadata [of "Json (Obj [(''title'', Str ''Song''), (''author_name'', Str ''Singer'')])"
      "Obj [(''title'', Str ''Song''), (''author_name'', Str ''Singer'')]"
      "Str ''Song''" "Str ''Singer''" "''dQw4w9WgXcQ''" initial]
  by simp

lemma try_body_thrown:
  "try_body videoId r = (case thrown r of
       Some e \<Rightarrow> Inl e
     | None \<Rightarrow> (case r of Json data \<Rightarrow>
         (case (get_prop data ''title'', get_prop data ''author_name'') of
            (Inr t, Inr a) \<Rightarrow> Inr \<lparr>title = t, description = t, author = a,
                                  thumbnailUrl = thumbnail videoId\<rparr>)))"
proof (cases r)
  case (Json data)
  then show ?thesis
    by (cases data) (simp_all add: try_body_def)
qed (simp_all add: try_body_def)

text \<open>
  Claim C6, as amended. A lookup fails, for \<open>fetchMetadata\<close>, exactly when its \<open>try\<close>
  block throws: \<open>fetch\<close> rejects, the body is not JSON, or the body is \<open>null\<close>. Then
  \<open>fetchMetadata\<close> returns normally, the metadata is cleared and the error goes to the
  console; when the lookup has settled, the state that the page renders is the old one with
  the metadata cleared and the loading flag off, so it holds no trace of the error. Any
  other reply, whatever it holds, counts as a success: metadata is set from it.
\<close>

theorem thrown_lookup_is_silent:
  "(thrown r = Some e \<longrightarrow>
      fetchMetadata videoId r w =
        Inr (w\<lparr>console := console w @ [(''Error fetching metadata:'', e)], metadata := None\<rparr>)
      \<and> (map_of (inflight w) rid = Some (videoId, req) \<longrightarrow>
           app_state.truncate (fetchSettled rid r w) =
             (app_state.truncate w)\<lparr>metadata := None, isLoadingMetadata := False\<rparr>))
   \<and> (thrown r = None \<longrightarrow>
        (\<exists>md. fetchMetadata videoId r w = Inr (w\<lparr>metadata := Some md\<rparr>)))"
proof (intro conjI impI)
  assume t: "thrown r = Some e"
  then have tb: "\<And>v. try_body v r = Inl e"
    by (simp add: try_body_thrown)
  show "fetchMetadata videoId r w =
        Inr (w\<lparr>console := console w @ [(''Error fetching metadata:'', e)], metadata := None\<rparr>)"
    by (simp add: fetchMetadata_def tb)
  assume "map_of (inflight w) rid = Some (videoId, req)"
  then show "app_state.truncate (fetchSettled rid r w) =
             (app_state.truncate w)\<lparr>metadata := None, isLoadingMetadata := False\<rparr>"
    by (simp add: fetchSettled_def fetchMetadata_def tb Let_def app_state.truncate_def)
next
  assume n: "thrown r = None"
  then obtain data where r: "r = Json data" and d: "data \<noteq> Null" "data \<noteq> Undefined"
    by (cases r; cases "case r of Json d \<Rightarrow> d") auto
  from d obtain t a where "get_prop data ''title'' = Inr t" "get_prop data ''author_name'' = Inr a"
    by (cases data) auto
  with r have "fetchMetadata videoId r w =
      Inr (w\<lparr>metadata := Some \<lparr>title = t, description = t, author = a,
                                  thumbnailUrl = thumbnail videoId\<rparr>\<rparr>)"
    by (simp add: fetchMetadata_def try_body_def)
  then show "\<exists>md. fetchMetadata videoId r w = Inr (w\<lparr>metadata := Some md\<rparr>)"
    by blast
qed

theorem thrown_lookup_is_silent_witness:
  "fetchMetadata ''dQw4w9WgXcQ'' (FetchRejected NetworkError)
     (initial\<lparr>metadata := Some \<lparr>title = Str ''Old'', description = Str ''Old'',
          author = Str ''Singer'', thumbnailUrl = thumbnail ''AAAAAAAAAAA''\<rparr>,
        isLoadingMetadata := True,
        inflight := [(0, ''dQw4w9WgXcQ'', oembedUrl ''dQw4w9WgXcQ'')], nextFetch := 1\<rparr>)
   = Inr (initial\<lparr>metadata := None, isLoadingMetadata := True,
        inflight := [(0, ''dQw4w9WgXcQ'', oembedUrl ''dQw4w9WgXcQ'')], nextFetch := 1,
        console := [(''Error fetching metadata:'', NetworkError)]\<rparr>)
   \<and> metadata (fetchSettled 0 (JsonRejected SyntaxError)
     (initial\<lparr>metadata := Some \<lparr>title = Str ''Old'', description = Str ''Old'',
          author = Str ''Singer'', thumbnailUrl = thumbnail ''AAAAAAAAAAA''\<rparr>,
        isLoadingMetadata := True,
        inflight := [(0, ''dQw4w9WgXcQ'', oembedUrl ''dQw4w9WgXcQ'')], nextFetch := 1\<rparr>)) = None"
proof -
  let ?w = "initial\<lparr>metadata := Some \<lparr>title = Str ''Old'', description = Str ''Old'',
          author = Str ''Singer'', thumbnailUrl = thumbnail ''AAAAAAAAAAA''\<rparr>,
        isLoadingMetadata := True,
        inflight := [(0, ''dQw4w9WgXcQ'', oembedUrl ''dQw4w9WgXcQ'')], nextFetch := 1\<rparr>"
  have a: "thrown (FetchRejected NetworkError) = Some NetworkError"
    and b: "thrown (JsonRejected SyntaxError) = Some SyntaxError"
    by simp_all
  have c: "map_of (inflight ?w) 0 = Some (''dQw4w9WgXcQ'', oembedUrl ''dQw4w9WgXcQ'')"
    by simp
  from thrown_lookup_is_silent [of "FetchRejected NetworkError" NetworkError "''dQw4w9WgXcQ''" ?w] a
  have 1: "fetchMetadata ''dQw4w9WgXcQ'' (FetchRejected NetworkError) ?w =
        Inr (?w\<lparr>console := console ?w @ [(''Error fetching metadata:'', NetworkError)],
               metadata := None\<rparr>)"
    by blast
  from thrown_lookup_is_silent [of "JsonRejected SyntaxError" SyntaxError
      "''dQw4w9WgXcQ''" ?w 0 "oembedUrl ''dQw4w9WgXcQ''"] b c
  have "app_state.truncate (fetchSettled 0 (JsonRejected SyntaxError) ?w) =
             (app_state.truncate ?w)\<lparr>metadata := None, isLoadingMetadata := False\<rparr>"
    by blast
  then have "metadata (app_state.truncate (fetchSettled 0 (JsonRejected SyntaxError) ?w)) = None"
    by simp
  then have 2: "metadata (fetchSettled 0 (JsonRejected SyntaxError) ?w) = None"
    by (simp add: app_state.truncate_def)
  from 1 2 show ?thesis
    by (simp add: initial_def)
qed

text \<open>
  As written the claim fails on a malformed response that is valid JSON. An error object,
  or an empty object, is not a failure for the code: metadata is set with \<open>undefined\<close>
  as title, author and description, nothing is logged, and the submit control is enabled.
\<close>

theorem parsed_reply_counterexample:
  "metadata (run [UrlChange ''https://www.youtu.be/dQw4w9WgXcQ'',
                  FetchSettled 0 (Json (Obj [(''error'', Str ''Not Found'')]))] initial)
     = Some \<lparr>title = Undefined, description = Undefined, author = Undefined,
             thumbnailUrl = ''https://img.youtube.com/vi/dQw4w9WgXcQ/maxresdefault.jpg''\<rparr>
   \<and> console (run [UrlChange ''https://www.youtu.be/dQw4w9WgXcQ'',
                  FetchSettled 0 (Json (Obj [(''error'', Str ''Not Found'')]))] initial) = []
   \<and> \<not> submitDisabled (run [UrlChange ''https://www.youtu.be/dQw4w9WgXcQ'',
                  FetchSettled 0 (Json (Obj [(''error'', Str ''Not Found'')]))] initial)
   \<and> metadata (run [UrlChange ''https://www.youtu.be/dQw4w9WgXcQ'',
                  FetchSettled 0 (Json (Obj []))] initial)
     = Some \<lparr>title = Undefined, description = Undefined, author = Undefined,
             thumbnailUrl = ''https://img.youtube.com/vi/dQw4w9WgXcQ/maxresdefault.jpg''\<rparr>"
  by code_simp

text \<open>
  Claim C7. An edit of the URL field whose new value yields no identifier leaves the
  metadata absent at once, whatever the state was, and starts no lookup.
\<close>

theorem edit_without_match_clears_metadata:
  assumes "getVideoId newUrl = Inr None"
  shows "metadata (fire (UrlChange newUrl) w) = None
         \<and> url (fire (UrlChange newUrl) w) = newUrl
         \<and> inflight (fire (UrlChange newUrl) w) = inflight w"
  using assms by (simp add: handleUrlChange_def)

theorem edit_without_match_clears_metadata_witness:
  "metadata (fire (UrlChange ''not a url'')
     (initial\<lparr>metadata := Some \<lparr>title = Str ''Song'', description = Str ''Song'',
          author = Str ''Singer'',
          thumbnailUrl = ''https://img.youtube.com/vi/dQw4w9WgXcQ/maxresdefault.jpg''\<rparr>\<rparr>)) = None"
proof -
  have h: "getVideoId ''not a url'' = Inr None" by code_simp
  from edit_without_match_clears_metadata [OF h] show ?thesis by blast
qed

text \<open>
  Claim C2, as amended. A lookup that settles while in flight applies its result at that
  moment: its metadata on success, absence on failure. Neither the order in which lookups
  were launched nor the current content of the field plays a part, so the state shows the
  result of the lookup that settled last.
\<close>

theorem settled_lookup_is_applied:
  assumes "map_of (inflight w) rid = Some (videoId, req)"
  shows "metadata (fetchSettled rid r w) =
           (case try_body videoId r of Inr md \<Rightarrow> Some md | Inl e \<Rightarrow> None)
         \<and> isLoadingMetadata (fetchSettled rid r w) = False
         \<and> url (fetchSettled rid r w) = url w"
  using assms
  by (simp add: fetchSettled_def fetchMetadata_def Let_def split: sum.splits)

theorem settled_lookup_is_applied_witness:
  "metadata (fetchSettled 0 (Json (Obj [(''title'', Str ''first''), (''author_name'', Str ''a'')]))
      (initial\<lparr>url := ''https://youtu.be/BBBBBBBBBBB'',
               inflight := [(0, ''AAAAAAAAAAA'', oembedUrl ''AAAAAAAAAAA''),
                            (1, ''BBBBBBBBBBB'', oembedUrl ''BBBBBBBBBBB'')],
               nextFetch := 2\<rparr>))
     = Some \<lparr>title = Str ''first'', description = Str ''first'', author = Str ''a'',
             thumbnailUrl = ''https://img.youtube.com/vi/AAAAAAAAAAA/maxresdefault.jpg''\<rparr>"
proof -
  let ?w = "initial\<lparr>url := ''https://youtu.be/BBBBBBBBBBB'',
               inflight := [(0, ''AAAAAAAAAAA'', oembedUrl ''AAAAAAAAAAA''),
                            (1, ''BBBBBBBBBBB'', oembedUrl ''BBBBBBBBBBB'')],
               nextFetch := 2\<rparr>"
  have h: "map_of (inflight ?w) 0 = Some (''AAAAAAAAAAA'', oembedUrl ''AAAAAAAAAAA'')"
    by simp
  from settled_lookup_is_applied [OF h] show ?thesis
    by (simp add: try_body_def thumbnail_def)
qed

text \<open>
  As written the claim fails: no lookup is ever superseded. Below, the lookup for the first
  address settles after the one for the second address and its result stays on the page
  under the second address; and a lookup that settles after the field was emptied brings
  the metadata back.
\<close>

theorem stale_lookup_counterexample:
  "map_option thumbnailUrl (metadata (run
      [UrlChange ''https://youtu.be/AAAAAAAAAAA'',
       UrlChange ''https://youtu.be/BBBBBBBBBBB'',
       FetchSettled 1 (Json (Obj [(''title'', Str ''second''), (''author_name'', Str ''b'')])),
       FetchSettled 0 (Json (Obj [(''title'', Str ''first''), (''author_name'', Str ''a'')]))]
      initial))
     = Some ''https://img.youtube.com/vi/AAAAAAAAAAA/maxresdefault.jpg''
   \<and> url (run
      [UrlChange ''https://youtu.be/AAAAAAAAAAA'',
       UrlChange ''https://youtu.be/BBBBBBBBBBB'',
       FetchSettled 1 (Json (Obj [(''title'', Str ''second''), (''author_name'', Str ''b'')])),
       FetchSettled 0 (Json (Obj [(''title'', Str ''first''), (''author_name'', Str ''a'')]))]
      initial) = ''https://youtu.be/BBBBBBBBBBB''
   \<and> map_option title (metadata (run
      [UrlChange ''https://youtu.be/AAAAAAAAAAA'',
       UrlChange [],
       FetchSettled 0 (Json (Obj [(''title'', Str ''first''), (''author_name'', Str ''a'')]))]
      initial)) = Some (Str ''first'')"
  by code_simp

subsection \<open>The simulated download and the history\<close>






























text \<open>
  Claim C4. Starting from a history in which every entry has a quality exactly when its
  format is mp4 (the empty history of the initial state is one), every sequence of handler
  calls keeps it so: each entry of the history has a quality if and only if its format is
  mp4.
\<close>

theorem history_quality_iff_mp4:
  assumes "history_ok w" and "e \<in> set (history (fires evs w))"
  shows "(DownloadHistory.quality e \<noteq> None) = (DownloadHistory.format e = Mp4)"
proof -
  from assms(1) have "history_ok (fires evs w)" by (rule history_ok_fires)
  with assms(2) show ?thesis
    by (simp add: history_ok_def list_all_iff)
qed

theorem history_quality_iff_mp4_witness:
  "history_ok initial
   \<and> map DownloadHistory.format (history (fires
        (Submit # map (Tick 0) [1..<12] @ SetFormat Mp3 # Submit # map (Tick 1) [12..<23])
        initial)) = [Mp3, Mp4]
   \<and> map DownloadHistory.quality (history (fires
        (Submit # map (Tick 0) [1..<12] @ SetFormat Mp3 # Submit # map (Tick 1) [12..<23])
        initial)) = [None, Some ''720p'']"
proof -
  let ?evs = "Submit # map (Tick 0) [1..<12] @ SetFormat Mp3 # Submit # map (Tick 1) [12..<23]"
  have f: "map DownloadHistory.format (history (fires ?evs initial)) = [Mp3, Mp4]"
    by code_simp
  have q: "map DownloadHistory.quality (history (fires ?evs initial)) = [None, Some ''720p'']"
    by code_simp
  from f have "history (fires ?evs initial) \<noteq> []" by auto
  then have "hd (history (fires ?evs initial)) \<in> set (history (fires ?evs initial))"
    by simp
  from history_quality_iff_mp4 [OF history_ok_initial this] f q history_ok_initial
  show ?thesis by blast
qed

text \<open>
  Claim C8. In every state the page can reach, the submit control is disabled exactly when
  no metadata is present or a simulated download is running (its timer is set), and a
  submission through the disabled control changes nothing.
\<close>

theorem submit_control_disabled:
  assumes "w = run evs initial"
  shows "submitDisabled w = (metadata w = None \<or> timers w \<noteq> [])
         \<and> submitDisabled w = (isLoading w \<or> metadata w = None)
         \<and> (submitDisabled w \<longrightarrow> step Submit w = w)"
proof -
  have "simulator_inv w"
    using assms by (simp add: simulator_inv_run simulator_inv_initial)
  then have "isLoading w = (timers w \<noteq> [])"
    by (auto simp: simulator_inv_def split: if_splits)
  then show ?thesis
    by (auto simp: submitDisabled_def step_def)
qed

theorem submit_control_disabled_witness:
  "submitDisabled (run [] initial) \<and> step Submit (run [] initial) = run [] initial
   \<and> submitDisabled (run [UrlChange ''https://www.youtu.be/dQw4w9WgXcQ'',
       FetchSettled 0 (Json (Obj [(''title'', Str ''Song''), (''author_name'', Str ''Singer'')])),
       Submit, Tick 0 500] initial)"
proof -
  let ?evs = "[UrlChange ''https://www.youtu.be/dQw4w9WgXcQ'',
       FetchSettled 0 (Json (Obj [(''title'', Str ''Song''), (''author_name'', Str ''Singer'')])),
       Submit, Tick 0 500]"
  have a: "metadata (run [] initial) = None"
    by (simp add: initial_def)
  have b: "length (timers (run ?evs initial)) = 1"
    by code_simp
  then have b': "timers (run ?evs initial) \<noteq> []" by auto
  from submit_control_disabled [OF refl, of "[]"] submit_control_disabled [OF refl, of ?evs] a b'
  show ?thesis by blast
qed

text \<open>
  Claim C9. The handler itself does not look at the metadata. Called with no metadata
  present while no simulation runs, it runs the simulation in full (ten steps of 10) and
  the entry it prepends has no metadata.
\<close>

theorem download_without_metadata:
  assumes "metadata w = None" and "timers w = []" and "progress w = 0"
    and "length nows = 10"
  shows "fire Submit w = handleDownload w
         \<and> (\<forall>k \<le> 10. progress (ticks (nextTimer w) (take k nows) (fire Submit w)) = 10 * k)
         \<and> history (ticks (nextTimer w) (nows @ [now]) (fire Submit w)) =
               \<lparr>DownloadHistory.url = url w, DownloadHistory.format = format w,
                 DownloadHistory.quality = (if format w = Mp4 then Some (quality w) else None),
                 DownloadHistory.timestamp = now, DownloadHistory.metadata = None\<rparr>
               # history w"
proof -
  have run: "ticks (nextTimer w) (take k nows) (handleDownload w) =
        (handleDownload w)\<lparr>progress := 10 * k\<rparr>" if "k \<le> 10" for k
    using simulation_progress [OF assms(2,3), of "take k nows"] that assms(4) by simp
  have b: "progress (ticks (nextTimer w) (take k nows) (handleDownload w)) = 10 * k"
    if "k \<le> 10" for k
    unfolding run [OF that] by simp
  have c: "history (ticks (nextTimer w) (nows @ [now]) (handleDownload w)) =
               \<lparr>DownloadHistory.url = url w, DownloadHistory.format = format w,
                 DownloadHistory.quality = (if format w = Mp4 then Some (quality w) else None),
                 DownloadHistory.timestamp = now, DownloadHistory.metadata = None\<rparr>
               # history w"
    unfolding simulation_complete [OF assms(2,3,4)]
    using assms(1) by (simp add: entry_def app_state.truncate_def)
  from b c show ?thesis by simp
qed

theorem download_without_metadata_witness:
  "metadata initial = None
   \<and> history (ticks 0 ([500, 1000, 1500, 2000, 2500, 3000, 3500, 4000, 4500, 5000] @ [5500])
        (fire Submit initial))
     = [\<lparr>DownloadHistory.url = [], DownloadHistory.format = Mp4,
         DownloadHistory.quality = Some ''720p'', DownloadHistory.timestamp = 5500,
         DownloadHistory.metadata = None\<rparr>]"
proof -
  have h: "metadata initial = None" "timers initial = []" "progress initial = 0"
    by (simp_all add: initial_def)
  have n: "length [500, 1000, 1500, 2000, 2500, 3000, 3500, 4000, 4500, 5000 :: nat] = 10"
    by simp
  have f: "nextTimer initial = 0" "url initial = []" "format initial = Mp4"
    "quality initial = ''720p''" "history initial = []"
    by (simp_all add: initial_def)
  from download_without_metadata [OF h n, of 5500]
  have "history (ticks (nextTimer initial)
          ([500, 1000, 1500, 2000, 2500, 3000, 3500, 4000, 4500, 5000] @ [5500])
          (fire Submit initial)) =
        \<lparr>DownloadHistory.url = url initial, DownloadHistory.format = format initial,
          DownloadHistory.quality =
            (if format initial = Mp4 then Some (quality initial) else None),
          DownloadHistory.timestamp = 5500, DownloadHistory.metadata = None\<rparr>
        # history initial"
    by blast
  with h(1) show ?thesis
    by (simp only: f if_True simp_thms)
qed

end
